theory Spec2Isabelle
  imports Complex_Main "HOL-Library.Log_Nat"
begin

section \<open>JavaScript numbers\<close>

text \<open>
  Every number of the program is a JavaScript \<open>number\<close>: an IEEE-754 binary64 value.
  A finite value is modelled by the real number it denotes, and every arithmetic
  operation rounds its exact result to the nearest binary64 value, ties to even
  (\<open>fl\<close>), overflowing to an infinity (\<open>to_num\<close>).  \<open>NaN\<close> and the two infinities
  are values of their own.  One idealisation remains: negative zero is identified
  with zero, so a quotient by a zero that JavaScript would hold as \<open>-0\<close> has the
  sign of a quotient by \<open>+0\<close> here.
\<close>

datatype jsnum = NaN | NegInf | Fin real | PosInf

definition pow2 :: "int \<Rightarrow> real" where
  "pow2 e = (if 0 \<le> e then 2 ^ nat e else 1 / 2 ^ nat (- e))"

text \<open>The binary exponent of a positive real: \<open>pow2 (expo x) \<le> x < pow2 (expo x + 1)\<close>.\<close>

definition expo :: "real \<Rightarrow> int" where
  "expo x = (if 1 \<le> x then bitlen \<lfloor>x\<rfloor> - 1 else - bitlen (\<lceil>1 / x\<rceil> - 1))"

text \<open>The nearest integer, a tie going to the even neighbour.\<close>

definition round_even :: "real \<Rightarrow> int" where
  "round_even t =
     (let f = \<lfloor>t\<rfloor>; d = t - of_int f
      in if d < 1 / 2 then f else if 1 / 2 < d then f + 1 else if even f then f else f + 1)"

text \<open>
  Rounding to binary64: 53 significant bits, so the spacing of the values around \<open>x\<close>
  is \<open>pow2 (expo \<bar>x\<bar> - 52)\<close>, and never finer than \<open>pow2 (- 1074)\<close> (the subnormal
  range).
\<close>

definition fl :: "real \<Rightarrow> real" where
  "fl x = (if x = 0 then 0
           else let u = pow2 (max (expo \<bar>x\<bar>) (- 1022) - 52)
                in of_int (round_even (x / u)) * u)"

definition to_num :: "real \<Rightarrow> jsnum" where
  "to_num x =
     (let y = fl x
      in if 2 ^ 1024 \<le> y then PosInf else if y \<le> - (2 ^ 1024) then NegInf else Fin y)"

definition is_neg :: "jsnum \<Rightarrow> bool" where
  "is_neg a = (case a of NegInf \<Rightarrow> True | Fin x \<Rightarrow> x < 0 | _ \<Rightarrow> False)"

definition js_add :: "jsnum \<Rightarrow> jsnum \<Rightarrow> jsnum" where
  "js_add a b =
     (if a = NaN \<or> b = NaN then NaN
      else case (a, b) of
        (Fin x, Fin y) \<Rightarrow> to_num (x + y)
      | (Fin x, _) \<Rightarrow> b
      | (_, Fin y) \<Rightarrow> a
      | _ \<Rightarrow> (if a = b then a else NaN))"

definition js_neg :: "jsnum \<Rightarrow> jsnum" where
  "js_neg a = (case a of NaN \<Rightarrow> NaN | NegInf \<Rightarrow> PosInf | Fin x \<Rightarrow> Fin (- x) | PosInf \<Rightarrow> NegInf)"

definition js_mul :: "jsnum \<Rightarrow> jsnum \<Rightarrow> jsnum" where
  "js_mul a b =
     (if a = NaN \<or> b = NaN then NaN
      else case (a, b) of
        (Fin x, Fin y) \<Rightarrow> to_num (x * y)
      | _ \<Rightarrow> (if a = Fin 0 \<or> b = Fin 0 then NaN
              else if is_neg a = is_neg b then PosInf else NegInf))"

definition js_div :: "jsnum \<Rightarrow> jsnum \<Rightarrow> jsnum" where
  "js_div a b =
     (if a = NaN \<or> b = NaN then NaN
      else case (a, b) of
        (Fin x, Fin y) \<Rightarrow>
          (if y = 0 then (if x = 0 then NaN else if 0 < x then PosInf else NegInf)
           else to_num (x / y))
      | (Fin x, _) \<Rightarrow> Fin 0
      | (_, Fin y) \<Rightarrow> (if is_neg a = (y < 0) then PosInf else NegInf)
      | _ \<Rightarrow> NaN)"

text \<open>
  The remainder \<open>a % b\<close> has the sign of the dividend: \<open>a - b * trunc (a / b)\<close>
  with the quotient truncated towards zero.  The operation is exact in binary64.
\<close>

definition trunc :: "real \<Rightarrow> int" where
  "trunc x = (if 0 \<le> x then \<lfloor>x\<rfloor> else \<lceil>x\<rceil>)"

definition js_rem :: "jsnum \<Rightarrow> jsnum \<Rightarrow> jsnum" where
  "js_rem a b =
     (case (a, b) of
        (Fin x, Fin y) \<Rightarrow> (if y = 0 then NaN else Fin (x - y * of_int (trunc (x / y))))
      | (Fin x, NegInf) \<Rightarrow> Fin x
      | (Fin x, PosInf) \<Rightarrow> Fin x
      | _ \<Rightarrow> NaN)"

definition js_lt :: "jsnum \<Rightarrow> jsnum \<Rightarrow> bool" where
  "js_lt a b =
     (case (a, b) of
        (Fin x, Fin y) \<Rightarrow> x < y
      | (NegInf, Fin y) \<Rightarrow> True
      | (NegInf, PosInf) \<Rightarrow> True
      | (Fin x, PosInf) \<Rightarrow> True
      | _ \<Rightarrow> False)"

definition js_gt :: "jsnum \<Rightarrow> jsnum \<Rightarrow> bool" where
  "js_gt a b = js_lt b a"

definition js_le :: "jsnum \<Rightarrow> jsnum \<Rightarrow> bool" where
  "js_le a b = (a \<noteq> NaN \<and> b \<noteq> NaN \<and> \<not> js_lt b a)"

text \<open>\<open>!a\<close> is true of \<open>0\<close> and \<open>NaN\<close> only; \<open>a === b\<close> is false when either is \<open>NaN\<close>.\<close>

definition js_not :: "jsnum \<Rightarrow> bool" where
  "js_not a = (a = Fin 0 \<or> a = NaN)"

definition js_strict_eq :: "jsnum \<Rightarrow> jsnum \<Rightarrow> bool" where
  "js_strict_eq a b = (a \<noteq> NaN \<and> a = b)"

definition Math_ceil :: "jsnum \<Rightarrow> jsnum" where
  "Math_ceil a = (case a of Fin x \<Rightarrow> Fin (of_int \<lceil>x\<rceil>) | _ \<Rightarrow> a)"

definition Math_floor :: "jsnum \<Rightarrow> jsnum" where
  "Math_floor a = (case a of Fin x \<Rightarrow> Fin (of_int \<lfloor>x\<rfloor>) | _ \<Rightarrow> a)"

definition Math_max :: "jsnum \<Rightarrow> jsnum \<Rightarrow> jsnum" where
  "Math_max a b = (if a = NaN \<or> b = NaN then NaN else if js_lt a b then b else a)"

definition Math_min :: "jsnum \<Rightarrow> jsnum \<Rightarrow> jsnum" where
  "Math_min a b = (if a = NaN \<or> b = NaN then NaN else if js_lt b a then b else a)"

text \<open>
  \<open>parseInt(s, 10)\<close>: leading white space is skipped, one sign is read, then the
  longest run of decimal digits; no digit at all gives \<open>NaN\<close>.  Whatever follows
  the digits is ignored.
\<close>

definition is_space :: "char \<Rightarrow> bool" where
  "is_space c = (c \<in> set [CHR 0x09, CHR 0x0A, CHR 0x0B, CHR 0x0C, CHR 0x0D, CHR 0x20])"

definition is_digit :: "char \<Rightarrow> bool" where
  "is_digit c = (c \<in> set ''0123456789'')"

definition digit_value :: "char \<Rightarrow> int" where
  "digit_value c = of_char c - 48"

definition digits_value :: "string \<Rightarrow> int" where
  "digits_value ds = foldl (\<lambda>n c. 10 * n + digit_value c) 0 ds"

definition parseInt :: "string \<Rightarrow> jsnum" where
  "parseInt s =
     (let t = dropWhile is_space s;
          negative = (t \<noteq> [] \<and> hd t = CHR ''-'');
          u = (if t \<noteq> [] \<and> (hd t = CHR ''-'' \<or> hd t = CHR ''+'') then tl t else t);
          z = takeWhile is_digit u
      in if z = [] then NaN
         else to_num (of_int (if negative then - digits_value z else digits_value z)))"

section \<open>The grid form and the aspect ratio of the request (App)\<close>

text \<open>
  The two number fields store \<open>Math.max(1, parseInt(e.target.value, 10))\<close>; the
  frame count handed to the player is their product.
\<close>

definition onChange_columns :: "string \<Rightarrow> jsnum" where
  "onChange_columns v = Math_max (Fin 1) (parseInt v)"

definition onChange_rows :: "string \<Rightarrow> jsnum" where
  "onChange_rows v = Math_max (Fin 1) (parseInt v)"

definition numberOfFrames :: "jsnum \<Rightarrow> jsnum \<Rightarrow> jsnum" where
  "numberOfFrames columns rows = js_mul columns rows"

datatype AspectRatio = Ratio_1_1 | Ratio_3_4 | Ratio_4_3 | Ratio_9_16 | Ratio_16_9

fun label :: "AspectRatio \<Rightarrow> string" where
  "label Ratio_1_1 = ''1:1''"
| "label Ratio_3_4 = ''3:4''"
| "label Ratio_4_3 = ''4:3''"
| "label Ratio_9_16 = ''9:16''"
| "label Ratio_16_9 = ''16:9''"

text \<open>
  The choice of \<open>aspectRatio\<close> in \<open>handleGenerate\<close>; the four thresholds are the
  source's own expressions, evaluated as JavaScript evaluates them.
\<close>

definition aspectRatio :: "jsnum \<Rightarrow> jsnum \<Rightarrow> AspectRatio" where
  "aspectRatio columns rows =
     (let calculatedRatio = js_div columns rows
      in if js_gt calculatedRatio
              (js_div (js_add (js_div (Fin 16) (Fin 9)) (js_div (Fin 4) (Fin 3))) (Fin 2))
         then Ratio_16_9
         else if js_gt calculatedRatio
              (js_div (js_add (js_div (Fin 4) (Fin 3)) (js_div (Fin 1) (Fin 1))) (Fin 2))
         then Ratio_4_3
         else if js_gt calculatedRatio
              (js_div (js_add (js_div (Fin 1) (Fin 1)) (js_div (Fin 3) (Fin 4))) (Fin 2))
         then Ratio_1_1
         else if js_gt calculatedRatio
              (js_div (js_add (js_div (Fin 3) (Fin 4)) (js_div (Fin 9) (Fin 16))) (Fin 2))
         then Ratio_3_4
         else Ratio_9_16)"

section \<open>The sprite player (SpritePlayer)\<close>

text \<open>
  The component is modelled as a state and three kinds of events: the parent renders
  it with new props, the \<open>onload\<close> handler of an image fires, the interval callback
  fires.  JavaScript runs each handler to completion, and the render it causes and
  the effects of that render are taken as part of the same step.  The state holds
  the two \<open>useState\<close> cells, the two refs, and what the effects have registered
  with the browser.  Unmounting is not modelled.
\<close>

record dims =
  width :: jsnum
  height :: jsnum

record props =
  imageUrl :: string
  columns :: jsnum
  frames :: jsnum
  fps :: jsnum
  isPlaying :: bool

text \<open>
  An \<open>Image\<close> object created by the loading effect, with what its \<open>onload\<close>
  handler captured from the render that created it.
\<close>

record image =
  src :: string
  img_columns :: jsnum
  img_frames :: jsnum

text \<open>
  A live \<open>setInterval\<close> registration: its id, its delay in milliseconds and what
  the callback captured from the render that registered it.
\<close>

record interval =
  intervalId :: nat
  delay :: jsnum
  cb_frames :: jsnum
  cb_columns :: jsnum
  cb_frameDimensions :: dims

text \<open>
  The state of one mounted player.  \<open>playerRef\<close> is \<open>None\<close> while the component
  renders nothing; otherwise it holds the pair of pixel offsets last written into
  the node's \<open>backgroundPosition\<close> (a new node shows the sheet's top left corner,
  the pair \<open>(0, 0)\<close>).  \<open>timer\<close> is the interval registered and not yet cleared,
  \<open>timersCreated\<close> the number of intervals this player has registered so far (the
  next id), \<open>loading\<close> the images whose \<open>onload\<close> has not fired yet.
\<close>

record player =
  currentProps :: props
  spriteDimensions :: dims
  frameDimensions :: dims
  currentFrame :: jsnum
  playerRef :: "(jsnum \<times> jsnum) option"
  timer :: "interval option"
  timersCreated :: nat
  loading :: "image list"

text \<open>The loading effect (dependencies \<open>imageUrl\<close>, \<open>columns\<close>, \<open>frames\<close>).\<close>

definition load_effect :: "props \<Rightarrow> image list" where
  "load_effect p =
     (if imageUrl p = [] then []
      else [\<lparr>src = imageUrl p, img_columns = columns p, img_frames = frames p\<rparr>])"

text \<open>
  The animation effect (dependencies \<open>isPlaying\<close>, \<open>fps\<close>, \<open>frames\<close>, \<open>columns\<close>,
  \<open>frameDimensions\<close>): its guard, and the interval it registers under the id \<open>n\<close>.
\<close>

definition animation_effect :: "props \<Rightarrow> dims \<Rightarrow> nat \<Rightarrow> interval option" where
  "animation_effect p fd n =
     (if \<not> isPlaying p \<or> js_not (width fd) \<or> js_not (height fd) \<or> js_le (fps p) (Fin 0)
      then None
      else Some \<lparr>intervalId = n, delay = js_div (Fin 1000) (fps p),
                 cb_frames = frames p, cb_columns = columns p, cb_frameDimensions = fd\<rparr>)"

text \<open>The frame geometry computed by the \<open>onload\<close> handler from the natural size of the sheet.\<close>

definition resolve :: "dims \<Rightarrow> jsnum \<Rightarrow> jsnum \<Rightarrow> dims" where
  "resolve sheet cols frms =
     (let rows = Math_ceil (js_div frms cols)
      in \<lparr>width = js_div (width sheet) cols, height = js_div (height sheet) rows\<rparr>)"

text \<open>The offset the interval callback writes for a frame index.\<close>

definition frame_offset :: "jsnum \<Rightarrow> jsnum \<Rightarrow> dims \<Rightarrow> jsnum \<times> jsnum" where
  "frame_offset cf cols fd =
     (let frameX = js_rem cf cols;
          frameY = Math_floor (js_div cf cols);
          x = js_mul (js_neg frameX) (width fd);
          y = js_mul (js_neg frameY) (height fd)
      in (x, y))"

text \<open>
  A render with the props \<open>p\<close>, followed by the effects whose dependencies changed.
  \<open>fdChanged\<close> says that \<open>setFrameDimensions\<close> was called, which always stores a new
  object.  The node exists exactly when the frame width is not \<open>0\<close>.  An effect
  that runs again first runs its cleanup: the animation effect clears its interval,
  the loading effect has no cleanup.
\<close>

definition rerender :: "props \<Rightarrow> bool \<Rightarrow> player \<Rightarrow> player" where
  "rerender p fdChanged st =
     (let old = currentProps st;
          node = (if js_strict_eq (width (frameDimensions st)) (Fin 0) then None
                  else case playerRef st of None \<Rightarrow> Some (Fin 0, Fin 0) | Some pos \<Rightarrow> Some pos);
          images = (if imageUrl p \<noteq> imageUrl old \<or> columns p \<noteq> columns old \<or> frames p \<noteq> frames old
                    then load_effect p else []);
          st1 = st\<lparr>currentProps := p, playerRef := node, loading := loading st @ images\<rparr>
      in if isPlaying p \<noteq> isPlaying old \<or> fps p \<noteq> fps old \<or> frames p \<noteq> frames old
            \<or> columns p \<noteq> columns old \<or> fdChanged
         then (case animation_effect p (frameDimensions st) (timersCreated st) of
                 None \<Rightarrow> st1\<lparr>timer := None\<rparr>
               | Some t \<Rightarrow> st1\<lparr>timer := Some t, timersCreated := Suc (timersCreated st)\<rparr>)
         else st1)"

text \<open>The first render: the initial state of the hooks, then both effects.\<close>

definition mount :: "props \<Rightarrow> player" where
  "mount p =
     (let fd = \<lparr>width = Fin 0, height = Fin 0\<rparr>;
          t = animation_effect p fd 0
      in \<lparr>currentProps = p, spriteDimensions = \<lparr>width = Fin 0, height = Fin 0\<rparr>,
          frameDimensions = fd, currentFrame = Fin 0, playerRef = None,
          timer = t, timersCreated = (if t = None then 0 else 1), loading = load_effect p\<rparr>)"

text \<open>The parent renders the player with new props.\<close>

definition set_props :: "props \<Rightarrow> player \<Rightarrow> player" where
  "set_props p st = rerender p False st"

text \<open>\<open>img.onload\<close> for a sheet of natural size \<open>w\<close> by \<open>h\<close> pixels.\<close>

definition img_onload :: "image \<Rightarrow> nat \<Rightarrow> nat \<Rightarrow> player \<Rightarrow> player" where
  "img_onload img w h st =
     (let sheet = \<lparr>width = Fin (real w), height = Fin (real h)\<rparr>
      in rerender (currentProps st) True
           (st\<lparr>spriteDimensions := sheet,
               frameDimensions := resolve sheet (img_columns img) (img_frames img),
               currentFrame := Fin 0,
               playerRef := (case playerRef st of None \<Rightarrow> None | Some pos \<Rightarrow> Some (Fin 0, Fin 0))\<rparr>))"

text \<open>One firing of the interval callback; nothing fires without a registered interval.\<close>

definition tick :: "player \<Rightarrow> player" where
  "tick st =
     (case timer st of
        None \<Rightarrow> st
      | Some t \<Rightarrow>
          (let cf = js_rem (js_add (currentFrame st) (Fin 1)) (cb_frames t)
           in st\<lparr>currentFrame := cf,
                 playerRef := (case playerRef st of
                                 None \<Rightarrow> None
                               | Some pos \<Rightarrow> Some (frame_offset cf (cb_columns t) (cb_frameDimensions t)))\<rparr>))"

text \<open>What the component returns: nothing, or the styled node.\<close>

record view =
  view_width :: jsnum
  view_height :: jsnum
  backgroundImage :: string
  backgroundSize :: dims
  scale :: jsnum

definition render :: "player \<Rightarrow> view option" where
  "render st =
     (let fd = frameDimensions st;
          maxPreviewSize = Fin 256;
          s = (if js_gt (width fd) (Fin 0)
               then Math_max (Fin 1)
                      (Math_min (js_div maxPreviewSize (width fd)) (js_div maxPreviewSize (height fd)))
               else Fin 1)
      in if js_strict_eq (width fd) (Fin 0) then None
         else Some \<lparr>view_width = width fd, view_height = height fd,
                    backgroundImage = imageUrl (currentProps st),
                    backgroundSize = spriteDimensions st, scale = s\<rparr>)"

text \<open>The events of a mounted player, and a run of them.\<close>

datatype event = Props props | Loaded nat nat nat | Tick

fun step :: "player \<Rightarrow> event \<Rightarrow> player" where
  "step st (Props p) = set_props p st"
| "step st (Loaded k w h) =
     (if k < length (loading st)
      then img_onload (loading st ! k) w h
             (st\<lparr>loading := take k (loading st) @ drop (Suc k) (loading st)\<rparr>)
      else st)"
| "step st Tick = tick st"

definition run :: "player \<Rightarrow> event list \<Rightarrow> player" where
  "run st evs = foldl step st evs"

section \<open>Reachable states\<close>

text \<open>An event that completes an image load.\<close>

fun loads :: "event \<Rightarrow> bool" where
  "loads (Loaded k w h) = True"
| "loads (Props p) = False"
| "loads Tick = False"

text \<open>The state in which no sheet has been loaded: the geometry is the initial one.\<close>

definition unloaded :: "player \<Rightarrow> bool" where
  "unloaded st =
     (frameDimensions st = \<lparr>width = Fin 0, height = Fin 0\<rparr> \<and> playerRef st = None
      \<and> timer st = None)"

text \<open>
  What every reachable state satisfies: the registered interval, if there is one, is
  the one the animation effect registers for the current props and geometry, under
  an id already handed out; and the node exists exactly when the frame width is
  not \<open>0\<close>.
\<close>

definition consistent :: "player \<Rightarrow> bool" where
  "consistent st =
     ((case timer st of
         None \<Rightarrow> True
       | Some t \<Rightarrow>
           animation_effect (currentProps st) (frameDimensions st) (intervalId t) = Some t
           \<and> intervalId t < timersCreated st)
      \<and> (playerRef st = None \<longleftrightarrow> js_strict_eq (width (frameDimensions st)) (Fin 0)))"




section \<open>Example data\<close>

definition knight :: props where
  "knight = \<lparr>imageUrl = ''knight.png'', columns = Fin 4, frames = Fin 16, fps = Fin 12,
              isPlaying = True\<rparr>"

text \<open>The knight sheet, 512 by 512 pixels, loaded and played for five ticks.\<close>

definition knight_playing :: player where
  "knight_playing = run (mount knight) [Loaded 0 512 512, Tick, Tick, Tick, Tick, Tick]"


text \<open>Or the parent passes another grid for the same sheet.\<close>

definition knight_regridded :: player where
  "knight_regridded = set_props (knight\<lparr>columns := Fin 2, frames := Fin 8\<rparr>) knight_playing"



text \<open>Props with a negative frame count, and with a negative column count.\<close>

definition countdown :: props where
  "countdown = knight\<lparr>columns := Fin 2, frames := Fin (- 4)\<rparr>"


section \<open>Facts about rounding\<close>

lemma pow2_powi: "pow2 e = 2 powi e"
  by (simp add: pow2_def power_int_def inverse_eq_divide power_one_over)

lemma pow2_pos: "0 < pow2 e"
  by (simp add: pow2_powi)

lemma pow2_add: "pow2 (a + b) = pow2 a * pow2 b"
  by (simp add: pow2_powi power_int_add)

lemma pow2_mono: "a \<le> b \<Longrightarrow> pow2 a \<le> pow2 b"
  by (simp add: pow2_powi power_int_increasing)

lemma pow2_nat: "pow2 (int n) = 2 ^ n"
  by (simp add: pow2_def)

lemma expo_ge1:
  assumes "1 \<le> x"
  shows "pow2 (expo x) \<le> x" and "x < pow2 (expo x + 1)"
proof -
  define m where "m = \<lfloor>x\<rfloor>"
  have m: "0 < m" using assms by (simp add: m_def)
  have b: "1 \<le> bitlen m" using m by (simp add: bitlen_alt_def)
  have e: "expo x = bitlen m - 1" using assms by (simp add: expo_def m_def)
  from bitlen_bounds[OF m] have lo: "2 ^ nat (bitlen m - 1) \<le> m" and hi: "m < 2 ^ nat (bitlen m)"
    by auto
  have "pow2 (expo x) = 2 ^ nat (bitlen m - 1)" using b by (simp add: e pow2_def)
  also have "\<dots> \<le> real_of_int m" using lo by (metis of_int_le_iff of_int_numeral of_int_power)
  also have "\<dots> \<le> x" by (simp add: m_def)
  finally show "pow2 (expo x) \<le> x" .
  have "m + 1 \<le> 2 ^ nat (bitlen m)" using hi by simp
  then have "real_of_int (m + 1) \<le> 2 ^ nat (bitlen m)"
    by (metis of_int_le_iff of_int_numeral of_int_power)
  moreover have "x < real_of_int (m + 1)" by (simp add: m_def)
  moreover have "pow2 (expo x + 1) = 2 ^ nat (bitlen m)" using b by (simp add: e pow2_def)
  ultimately show "x < pow2 (expo x + 1)" by simp
qed

lemma expo_lt1:
  assumes "0 < x" "x < 1"
  shows "pow2 (expo x) \<le> x" and "x < pow2 (expo x + 1)"
proof -
  define y where "y = 1 / x"
  define m where "m = \<lceil>y\<rceil> - 1"
  have y: "1 < y" using assms by (simp add: y_def)
  have m: "0 < m" using y unfolding m_def by linarith
  have b: "1 \<le> bitlen m" using m by (simp add: bitlen_alt_def)
  have e: "expo x = - bitlen m" using assms by (simp add: expo_def m_def y_def)
  from bitlen_bounds[OF m] have lo: "2 ^ nat (bitlen m - 1) \<le> m" and hi: "m < 2 ^ nat (bitlen m)"
    by auto
  have "\<lceil>y\<rceil> \<le> 2 ^ nat (bitlen m)" using hi by (simp add: m_def)
  then have "real_of_int \<lceil>y\<rceil> \<le> 2 ^ nat (bitlen m)"
    by (metis of_int_le_iff of_int_numeral of_int_power)
  then have yle: "y \<le> 2 ^ nat (bitlen m)" by linarith
  have "(2::real) ^ nat (bitlen m - 1) \<le> real_of_int m"
    using lo by (metis of_int_le_iff of_int_numeral of_int_power)
  moreover have "real_of_int m < y" unfolding m_def by linarith
  ultimately have ygt: "2 ^ nat (bitlen m - 1) < y" by linarith
  have p1: "pow2 (expo x) = 1 / 2 ^ nat (bitlen m)" using b by (simp add: e pow2_def)
  have p2: "pow2 (expo x + 1) = 1 / 2 ^ nat (bitlen m - 1)"
    using b by (auto simp add: e pow2_def nat_diff_distrib)
  have xy: "1 / y = x" by (simp add: y_def)
  have "1 / 2 ^ nat (bitlen m) \<le> 1 / y" using yle y by (simp add: field_simps)
  then show "pow2 (expo x) \<le> x" by (simp only: p1 xy)
  have "1 / y < 1 / 2 ^ nat (bitlen m - 1)" using ygt y by (simp add: field_simps)
  then show "x < pow2 (expo x + 1)" by (simp only: p2 xy)
qed

lemma expo_bounds:
  assumes "0 < x"
  shows "pow2 (expo x) \<le> x" and "x < pow2 (expo x + 1)"
  using assms expo_ge1[of x] expo_lt1[of x] by (cases "1 \<le> x"; simp)+

lemma round_even_int: "round_even (of_int k) = k"
  by (simp add: round_even_def)

lemma round_even_err: "\<bar>of_int (round_even t) - t\<bar> \<le> 1 / 2"
  unfolding round_even_def Let_def by (auto; linarith)

lemma round_even_nonneg: "0 \<le> t \<Longrightarrow> 0 \<le> round_even t"
  unfolding round_even_def Let_def by (auto; linarith)

lemma round_even_nonpos: "t \<le> 0 \<Longrightarrow> round_even t \<le> 0"
  unfolding round_even_def Let_def by (auto; linarith)

lemma pow2_less_imp: "pow2 a < pow2 b \<Longrightarrow> a < b"
  using pow2_mono[of b a] by (cases "a < b") auto

lemma fl_nonneg: "0 \<le> x \<Longrightarrow> 0 \<le> fl x"
  unfolding fl_def Let_def
  by (auto intro!: mult_nonneg_nonneg round_even_nonneg divide_nonneg_pos simp: pow2_pos less_imp_le)

lemma fl_nonpos: "x \<le> 0 \<Longrightarrow> fl x \<le> 0"
  unfolding fl_def Let_def
  by (auto intro!: mult_nonpos_nonneg round_even_nonpos divide_nonpos_pos simp: pow2_pos less_imp_le)

lemma fl_exact:
  assumes "x = of_int m * pow2 (max (expo \<bar>x\<bar>) (- 1022) - 52)"
  shows "fl x = x"
proof (cases "x = 0")
  case True
  then show ?thesis by (simp add: fl_def)
next
  case False
  define u where "u = pow2 (max (expo \<bar>x\<bar>) (- 1022) - 52)"
  have u: "0 < u" by (simp add: u_def pow2_pos)
  have "x / u = of_int m" using assms u by (simp add: u_def[symmetric])
  then have "round_even (x / u) = m" by (simp add: round_even_int)
  then have "fl x = of_int m * u" using False by (simp add: fl_def Let_def u_def[symmetric])
  then show ?thesis using assms by (simp add: u_def[symmetric])
qed

lemma fl_int:
  assumes "\<bar>k\<bar> \<le> 2 ^ 53"
  shows "fl (of_int k) = of_int k"
proof (cases "k = 0")
  case True
  then show ?thesis by (simp add: fl_def)
next
  case False
  define x where "x = \<bar>real_of_int k\<bar>"
  define e where "e = expo x"
  have x1: "1 \<le> x" using False by (simp add: x_def)
  have lo: "pow2 e \<le> x" and hi: "x < pow2 (e + 1)"
    using expo_ge1[OF x1] by (simp_all add: e_def)
  have "pow2 0 < pow2 (e + 1)" using x1 hi by (simp add: pow2_def)
  then have e0: "0 \<le> e" using pow2_less_imp[of 0 "e + 1"] by simp
  have x53: "x \<le> 2 ^ 53"
  proof -
    have "real_of_int \<bar>k\<bar> \<le> real_of_int (2 ^ 53)" using assms by (simp only: of_int_le_iff)
    then show ?thesis by (simp add: x_def)
  qed
  have "pow2 e < pow2 54" using lo x53 by (simp add: pow2_def)
  then have e53: "e \<le> 53" using pow2_less_imp[of e 54] by simp
  have mx: "max (expo \<bar>real_of_int k\<bar>) (- 1022) = e" using e0 by (simp add: e_def x_def)
  show ?thesis
  proof (cases "e \<le> 52")
    case True
    have "pow2 (52 - e) * pow2 (e - 52) = 1"
      using pow2_add[of "52 - e" "e - 52"] by (simp add: pow2_def)
    moreover have "pow2 (52 - e) = 2 ^ nat (52 - e)" using True by (simp add: pow2_def)
    ultimately have eq: "real_of_int k = of_int (k * 2 ^ nat (52 - e)) * pow2 (e - 52)"
      by (simp add: mult.assoc)
    show ?thesis
      by (rule fl_exact[where m = "k * 2 ^ nat (52 - e)"]) (unfold mx, rule eq)
  next
    case False
    then have e: "e = 53" using e53 by simp
    have "x = 2 ^ 53" using lo x53 by (simp add: e pow2_def)
    then have "real_of_int \<bar>k\<bar> = real_of_int (2 ^ 53)" by (simp add: x_def)
    then have "\<bar>k\<bar> = 2 ^ 53" by (simp only: of_int_eq_iff)
    then have "even \<bar>k\<bar>" by simp
    then have "even k" by simp
    then have "k = 2 * (k div 2)" by simp
    then have "real_of_int k = of_int (k div 2) * 2" by linarith
    then have eq: "real_of_int k = of_int (k div 2) * pow2 (e - 52)" by (simp add: e pow2_def)
    show ?thesis
      by (rule fl_exact[where m = "k div 2"]) (unfold mx, rule eq)
  qed
qed

lemma fl_err:
  assumes "pow2 (- 1022) \<le> \<bar>x\<bar>"
  shows "\<bar>fl x - x\<bar> \<le> \<bar>x\<bar> / 2 ^ 53"
proof -
  have x0: "x \<noteq> 0" using assms pow2_pos[of "- 1022"] by auto
  define e where "e = expo \<bar>x\<bar>"
  define u where "u = pow2 (e - 52)"
  have pos: "0 < \<bar>x\<bar>" using x0 by simp
  have lo: "pow2 e \<le> \<bar>x\<bar>" and hi: "\<bar>x\<bar> < pow2 (e + 1)"
    using expo_bounds[OF pos] by (simp_all add: e_def)
  have "pow2 (- 1022) < pow2 (e + 1)" using assms hi by simp
  then have e: "- 1022 \<le> e" using pow2_less_imp[of "- 1022" "e + 1"] by simp
  have u: "0 < u" by (simp add: u_def pow2_pos)
  have fl: "fl x = of_int (round_even (x / u)) * u"
    using x0 e by (simp add: fl_def Let_def u_def e_def max_def)
  have "fl x - x = (of_int (round_even (x / u)) - x / u) * u"
    using u by (simp add: fl field_simps)
  then have "\<bar>fl x - x\<bar> = \<bar>of_int (round_even (x / u)) - x / u\<bar> * u"
    using u by (simp add: abs_mult)
  also have "\<dots> \<le> 1 / 2 * u"
    using round_even_err[of "x / u"] u by (intro mult_right_mono) simp_all
  also have "u = pow2 e / 2 ^ 52"
    using pow2_add[of e "- 52"] by (simp add: u_def pow2_def)
  also have "1 / 2 * (pow2 e / 2 ^ 52) = pow2 e / 2 ^ 53" by simp
  also have "\<dots> \<le> \<bar>x\<bar> / 2 ^ 53" using lo by (simp add: divide_right_mono)
  finally show ?thesis .
qed

lemma to_num_int:
  assumes "\<bar>k\<bar> \<le> 2 ^ 53"
  shows "to_num (of_int k) = Fin (of_int k)"
proof -
  have "real_of_int \<bar>k\<bar> \<le> real_of_int (2 ^ 53)" using assms by (simp only: of_int_le_iff)
  then have "\<bar>real_of_int k\<bar> \<le> 2 ^ 53" by simp
  moreover have "(2::real) ^ 53 < 2 ^ 1024" by simp
  ultimately have "real_of_int k < 2 ^ 1024" "- (2 ^ 1024) < real_of_int k" by linarith+
  then show ?thesis by (simp add: to_num_def fl_int[OF assms] Let_def)
qed

section \<open>Facts about the arithmetic operations\<close>

lemma js_div_Fin: "y \<noteq> 0 \<Longrightarrow> js_div (Fin x) (Fin y) = to_num (x / y)"
  by (simp add: js_div_def)

lemma js_mul_Fin: "js_mul (Fin x) (Fin y) = to_num (x * y)"
  by (simp add: js_mul_def)

lemma js_add_Fin: "js_add (Fin x) (Fin y) = to_num (x + y)"
  by (simp add: js_add_def)

lemma js_rem_Fin: "y \<noteq> 0 \<Longrightarrow> js_rem (Fin x) (Fin y) = Fin (x - y * of_int (trunc (x / y)))"
  by (simp add: js_rem_def)

lemma js_neg_Fin: "js_neg (Fin x) = Fin (- x)"
  by (simp add: js_neg_def)

lemma Math_ceil_Fin: "Math_ceil (Fin x) = Fin (of_int \<lceil>x\<rceil>)"
  by (simp add: Math_ceil_def)

lemma Math_floor_Fin: "Math_floor (Fin x) = Fin (of_int \<lfloor>x\<rfloor>)"
  by (simp add: Math_floor_def)

lemma js_lt_Fin: "js_lt (Fin x) (Fin y) = (x < y)"
  by (simp add: js_lt_def)

lemma js_gt_Fin: "js_gt (Fin x) (Fin y) = (y < x)"
  by (simp add: js_gt_def js_lt_def)

lemma js_le_Fin: "js_le (Fin x) (Fin y) = (x \<le> y)"
  by (auto simp add: js_le_def js_lt_def)

lemma js_not_Fin: "js_not (Fin x) = (x = 0)"
  by (simp add: js_not_def)

lemma js_strict_eq_Fin: "js_strict_eq (Fin x) (Fin y) = (x = y)"
  by (simp add: js_strict_eq_def)

lemma to_num_0: "to_num 0 = Fin 0"
  using to_num_int[of 0] by simp

lemma to_num_1: "to_num 1 = Fin 1"
  using to_num_int[of 1] by simp

lemma to_num_numeral: "(numeral n :: int) \<le> 2 ^ 53 \<Longrightarrow> to_num (numeral n) = Fin (numeral n)"
  using to_num_int[of "numeral n"] by simp

lemma to_num_neg_numeral:
  "(numeral n :: int) \<le> 2 ^ 53 \<Longrightarrow> to_num (- numeral n) = Fin (- numeral n)"
  using to_num_int[of "- numeral n"] by simp

lemmas js_simps = js_div_Fin js_mul_Fin js_add_Fin js_rem_Fin js_neg_Fin Math_ceil_Fin
  Math_floor_Fin js_lt_Fin js_gt_Fin js_le_Fin js_not_Fin js_strict_eq_Fin to_num_0 to_num_1
  to_num_numeral to_num_neg_numeral trunc_def

lemma js_rem_int:
  assumes "0 \<le> i" "0 < n"
  shows "js_rem (Fin (of_int i)) (Fin (of_int n)) = Fin (of_int (i mod n))"
proof -
  have "0 \<le> real_of_int i / real_of_int n" using assms by simp
  then have "trunc (real_of_int i / real_of_int n) = i div n"
    by (simp add: trunc_def floor_divide_of_int_eq)
  moreover have "i - n * (i div n) = i mod n" by (simp add: minus_mult_div_eq_mod)
  then have "real_of_int i - real_of_int n * real_of_int (i div n) = real_of_int (i mod n)"
    by (metis of_int_diff of_int_mult)
  ultimately show ?thesis using assms by (simp add: js_rem_Fin)
qed

lemma quot_split:
  assumes "1 \<le> c" "\<not> c dvd i"
  shows "of_int (i div c) + 1 / real_of_int c \<le> of_int i / of_int c"
    and "of_int i / of_int c + 1 / real_of_int c \<le> of_int (i div c) + 1"
proof -
  define q where "q = i div c"
  define r where "r = i mod c"
  have c: "0 < real_of_int c" using assms by simp
  have "r \<noteq> 0" using assms by (simp add: r_def dvd_eq_mod_eq_0)
  moreover have "0 \<le> r" "r < c"
    using assms pos_mod_sign[of c i] pos_mod_bound[of c i] by (simp_all add: r_def)
  ultimately have r: "1 \<le> r" "r + 1 \<le> c" by linarith+
  have "i = q * c + r" by (simp add: q_def r_def)
  then have "real_of_int i = real_of_int q * real_of_int c + real_of_int r"
    by (metis of_int_add of_int_mult)
  then have x: "real_of_int i / real_of_int c = of_int q + of_int r / of_int c"
    using c by (simp add: field_simps)
  have "1 \<le> real_of_int r" using r by linarith
  then have "1 / real_of_int c \<le> real_of_int r / real_of_int c"
    using c by (simp add: divide_right_mono)
  then show "of_int (i div c) + 1 / real_of_int c \<le> of_int i / of_int c"
    unfolding x q_def by linarith
  have "real_of_int r + 1 \<le> real_of_int c" using r by linarith
  then have "(real_of_int r + 1) / real_of_int c \<le> 1" using c by simp
  then have "real_of_int r / real_of_int c + 1 / real_of_int c \<le> 1"
    by (simp add: add_divide_distrib)
  then show "of_int i / of_int c + 1 / real_of_int c \<le> of_int (i div c) + 1"
    unfolding x q_def by linarith
qed

lemma fl_quot_between:
  assumes "0 \<le> i" "i < 2 ^ 53" "1 \<le> c" "c \<le> 2 ^ 53" "\<not> c dvd i"
  shows "of_int (i div c) < fl (of_int i / of_int c)"
    and "fl (of_int i / of_int c) < of_int (i div c) + 1"
proof -
  define x where "x = real_of_int i / real_of_int c"
  have c: "0 < real_of_int c" using assms by simp
  have ipos: "1 \<le> i" using assms by (cases "i = 0") auto
  have "real_of_int i < real_of_int (2 ^ 53)" using assms by (simp only: of_int_less_iff)
  then have i53: "real_of_int i / 2 ^ 53 < 1" by simp
  have "real_of_int c \<le> real_of_int (2 ^ 53)" using assms by (simp only: of_int_le_iff)
  then have c53: "real_of_int c \<le> 2 ^ 53" by simp
  have i1: "1 \<le> real_of_int i" using ipos by linarith
  have xpos: "0 < x" using i1 c by (simp add: x_def)
  have "1 / 2 ^ 53 \<le> 1 / real_of_int c" using c c53 by (simp add: frac_le)
  also have "\<dots> \<le> x" unfolding x_def using i1 c by (simp add: divide_right_mono)
  finally have "1 / 2 ^ 53 \<le> x" .
  moreover have "pow2 (- 1022) \<le> 1 / 2 ^ 53" by (simp add: pow2_def)
  ultimately have "pow2 (- 1022) \<le> \<bar>x\<bar>" using xpos by linarith
  from fl_err[OF this] have err: "\<bar>fl x - x\<bar> \<le> x / 2 ^ 53" using xpos by simp
  have "x / 2 ^ 53 = (real_of_int i / 2 ^ 53) / real_of_int c" by (simp add: x_def)
  also have "\<dots> < 1 / real_of_int c" using i53 c by (rule divide_strict_right_mono)
  finally have small: "x / 2 ^ 53 < 1 / real_of_int c" .
  note qs = quot_split[OF assms(3) assms(5), folded x_def]
  show "of_int (i div c) < fl (of_int i / of_int c)"
    using err small qs unfolding x_def[symmetric] by linarith
  show "fl (of_int i / of_int c) < of_int (i div c) + 1"
    using err small qs unfolding x_def[symmetric] by linarith
qed

lemma fl_quot_dvd:
  assumes "0 \<le> i" "i \<le> 2 ^ 53" "1 \<le> c" "c dvd i"
  shows "fl (of_int i / of_int c) = of_int (i div c)"
proof -
  have eq: "real_of_int i / real_of_int c = of_int (i div c)"
    using assms by (simp add: real_of_int_div)
  have "0 \<le> i div c" using assms by (simp add: pos_imp_zdiv_nonneg_iff)
  moreover have "i div c \<le> i"
  proof -
    have q: "0 \<le> i div c" using assms by (simp add: pos_imp_zdiv_nonneg_iff)
    have "i div c * 1 \<le> i div c * c" using q assms by (intro mult_left_mono) simp_all
    moreover have "i div c * c + i mod c = i" by simp
    moreover have "0 \<le> i mod c" using assms by simp
    ultimately show ?thesis by linarith
  qed
  ultimately have "\<bar>i div c\<bar> \<le> 2 ^ 53" using assms by linarith
  then show ?thesis by (simp add: eq fl_int)
qed

lemma floor_fl_quot:
  assumes "0 \<le> i" "i < 2 ^ 53" "1 \<le> c" "c \<le> 2 ^ 53"
  shows "\<lfloor>fl (of_int i / of_int c)\<rfloor> = i div c"
proof (cases "c dvd i")
  case True
  then show ?thesis using assms fl_quot_dvd[of i c] by simp
next
  case False
  from fl_quot_between[OF assms this] show ?thesis by linarith
qed


lemmas fl_eval = to_num_def fl_def expo_def round_even_def pow2_def compute_bitlen

lemma to_num_nonpos: "x \<le> 0 \<Longrightarrow> js_le (to_num x) (Fin 0)"
  using fl_nonpos[of x] by (auto simp add: to_num_def Let_def js_le_def js_lt_def)

lemma to_num_Fin:
  assumes "pow2 (- 1022) \<le> \<bar>x\<bar>" "\<bar>x\<bar> \<le> 2 ^ 1023"
  shows "to_num x = Fin (fl x)"
proof -
  have "\<bar>fl x - x\<bar> \<le> \<bar>x\<bar> / 2 ^ 53" by (rule fl_err[OF assms(1)])
  moreover have "\<bar>x\<bar> / 2 ^ 53 \<le> \<bar>x\<bar> / 2" by (simp add: frac_le)
  moreover have "(2::real) ^ 1024 = 2 * 2 ^ 1023" by simp
  ultimately have "\<bar>fl x\<bar> < 2 ^ 1024" using assms(2) assms(1) pow2_pos[of "- 1022"] by linarith
  then show ?thesis by (auto simp add: to_num_def Let_def)
qed

lemma to_num_quot:
  assumes "0 \<le> i" "i \<le> 2 ^ 53" "1 \<le> c" "c \<le> 2 ^ 53"
  shows "to_num (of_int i / of_int c) = Fin (fl (of_int i / of_int c))"
proof (cases "i = 0")
  case True
  then show ?thesis by (simp add: to_num_0 fl_def)
next
  case False
  define x where "x = real_of_int i / real_of_int c"
  have c: "0 < real_of_int c" using assms by simp
  have i1: "1 \<le> real_of_int i" using False assms by linarith
  have "real_of_int i \<le> real_of_int (2 ^ 53)" using assms by (simp only: of_int_le_iff)
  then have i53: "real_of_int i \<le> 2 ^ 53" by simp
  have "real_of_int c \<le> real_of_int (2 ^ 53)" using assms by (simp only: of_int_le_iff)
  then have c53: "real_of_int c \<le> 2 ^ 53" by simp
  have c1: "1 \<le> real_of_int c" using assms by linarith
  have "1 / 2 ^ 53 \<le> 1 / real_of_int c" using c c53 by (simp add: frac_le)
  also have "\<dots> \<le> x" unfolding x_def using i1 c by (simp add: divide_right_mono)
  finally have lo: "1 / 2 ^ 53 \<le> x" .
  have "x \<le> real_of_int i / 1" unfolding x_def using c1 i1 by (intro divide_left_mono) simp_all
  then have hi: "x \<le> 2 ^ 53" using i53 by simp
  have "(0::real) < 1 / 2 ^ 53" by simp
  then have x0: "0 < x" using lo by (rule less_le_trans)
  have a: "pow2 (- 1022) \<le> \<bar>x\<bar>"
    unfolding abs_of_pos[OF x0] by (rule order_trans[OF _ lo]) (simp add: pow2_def)
  have b: "\<bar>x\<bar> \<le> 2 ^ 1023"
    unfolding abs_of_pos[OF x0] by (rule order_trans[OF hi]) simp
  show ?thesis using to_num_Fin[OF a b] by (simp add: x_def)
qed

section \<open>The grid fields (App)\<close>

lemma onChange_clamps_numbers:
  "parseInt v \<noteq> NaN \<Longrightarrow> js_le (Fin 1) (onChange_columns v) \<and> js_le (Fin 1) (onChange_rows v)"
  by (cases "parseInt v")
     (auto simp add: onChange_columns_def onChange_rows_def Math_max_def js_le_def js_lt_def)

lemma onChange_examples:
  "onChange_columns ''3'' = Fin 3" "onChange_columns ''0'' = Fin 1"
  "onChange_columns ''-7'' = Fin 1" "onChange_columns ''2.5'' = Fin 2"
  "onChange_columns ''abc'' = NaN"
  by (simp_all add: onChange_columns_def parseInt_def Math_max_def is_space_def is_digit_def
      digits_value_def digit_value_def js_simps)

text \<open>
  Claim C4.  The claim: whatever the user types into the columns or rows field, the value
  stored, and handed to the player, is an integer that is at least 1.  The handler
  does take the maximum with 1, but \<open>parseInt\<close> of a field without a digit (the
  empty field, while the user retypes a number) is \<open>NaN\<close>, and \<open>Math.max(1, NaN)\<close>
  is \<open>NaN\<close>: the stored value is not a number at all.
\<close>

theorem onChange_empty_NaN: "onChange_columns [] = NaN \<and> onChange_rows [] = NaN"
  by (simp add: onChange_columns_def onChange_rows_def parseInt_def Math_max_def)

section \<open>The aspect ratio of the request\<close>

lemma label_cases: "label a \<in> {''1:1'', ''3:4'', ''4:3'', ''9:16'', ''16:9''}"
  by (cases a) simp_all

lemma aspectRatio_examples:
  "aspectRatio (Fin 1) (Fin 1) = Ratio_1_1" "aspectRatio (Fin 16) (Fin 9) = Ratio_16_9"
  "aspectRatio (Fin 9) (Fin 16) = Ratio_9_16" "aspectRatio (Fin 4) (Fin 3) = Ratio_4_3"
  "aspectRatio (Fin 3) (Fin 4) = Ratio_3_4" "aspectRatio (Fin 14) (Fin 9) = Ratio_16_9"
  by (simp_all add: aspectRatio_def Let_def js_simps fl_eval)

text \<open>
  Claim C8.  For columns and rows that are at least 1 the chosen ratio is one of the five
  labels, and two grids of the same proportion \<open>c / r = c' / r'\<close> (stated without
  division as \<open>c * r' = c' * r\<close>) get the same label.
\<close>

theorem aspectRatio_rescale:
  assumes "1 \<le> c" "1 \<le> r" "1 \<le> c'" "1 \<le> r'" "c * r' = c' * r"
  shows "aspectRatio (Fin c') (Fin r') = aspectRatio (Fin c) (Fin r)
         \<and> label (aspectRatio (Fin c) (Fin r)) \<in> {''1:1'', ''3:4'', ''4:3'', ''9:16'', ''16:9''}"
proof -
  have "c / r = c' / r'" using assms by (simp add: frac_eq_eq)
  moreover have "r \<noteq> 0" "r' \<noteq> 0" using assms by auto
  ultimately have "js_div (Fin c') (Fin r') = js_div (Fin c) (Fin r)"
    by (simp add: js_div_Fin)
  then show ?thesis by (simp only: aspectRatio_def label_cases simp_thms)
qed

theorem aspectRatio_rescale_witness:
  "aspectRatio (Fin 8) (Fin 8) = aspectRatio (Fin 4) (Fin 4)
   \<and> label (aspectRatio (Fin 4) (Fin 4)) \<in> {''1:1'', ''3:4'', ''4:3'', ''9:16'', ''16:9''}"
  using aspectRatio_rescale[of 4 4 8 8] by simp

section \<open>Before the first load\<close>

lemma unloaded_no_timer: "animation_effect p \<lparr>width = Fin 0, height = h\<rparr> n = None"
  by (simp add: animation_effect_def js_not_def)

lemma unloaded_mount: "unloaded (mount p)"
  by (simp add: unloaded_def mount_def Let_def unloaded_no_timer)

lemma unloaded_rerender: "unloaded st \<Longrightarrow> unloaded (rerender p b st)"
  by (simp add: unloaded_def rerender_def Let_def unloaded_no_timer js_strict_eq_def)

lemma unloaded_tick: "unloaded st \<Longrightarrow> tick st = st"
  by (simp add: unloaded_def tick_def)

lemma unloaded_step: "unloaded st \<Longrightarrow> \<not> loads e \<Longrightarrow> unloaded (step st e)"
  by (cases e) (simp_all add: set_props_def unloaded_rerender unloaded_tick)

lemma unloaded_run: "unloaded st \<Longrightarrow> \<forall>e\<in>set evs. \<not> loads e \<Longrightarrow> unloaded (run st evs)"
  unfolding run_def by (induction evs arbitrary: st) (simp_all add: unloaded_step)

lemma render_unloaded: "unloaded st \<Longrightarrow> render st = None"
  by (simp add: unloaded_def render_def Let_def js_strict_eq_def)

lemma render_Some: "render st = Some v \<Longrightarrow> view_width v \<noteq> Fin 0"
  by (auto simp add: render_def Let_def js_strict_eq_def split: if_splits)

text \<open>
  Claim C10.  From the first render on, and through any ticks and changes of props, as
  long as no image load has completed the frame geometry is the initial \<open>(0, 0)\<close>,
  the component returns nothing and no node exists to carry an offset; and whatever
  the state, a node that is rendered never has the frame width \<open>0\<close>.
\<close>

theorem render_nothing_until_loaded:
  assumes "\<forall>e\<in>set evs. \<not> loads e"
  shows "render (run (mount p) evs) = None
         \<and> playerRef (run (mount p) evs) = None
         \<and> frameDimensions (run (mount p) evs) = \<lparr>width = Fin 0, height = Fin 0\<rparr>
         \<and> (\<forall>st v. render st = Some v \<longrightarrow> view_width v \<noteq> Fin 0)"
proof -
  have u: "unloaded (run (mount p) evs)" using assms unloaded_mount unloaded_run by blast
  then show ?thesis using render_unloaded render_Some by (auto simp add: unloaded_def)
qed

theorem render_nothing_until_loaded_witness:
  "render (run (mount knight) [Tick, Props (knight\<lparr>fps := Fin 24\<rparr>), Tick]) = None
   \<and> playerRef (run (mount knight) [Tick, Props (knight\<lparr>fps := Fin 24\<rparr>), Tick]) = None"
  using render_nothing_until_loaded[of "[Tick, Props (knight\<lparr>fps := Fin 24\<rparr>), Tick]" knight]
  by simp

section \<open>Facts about the player\<close>

lemma animation_effect_cong:
  "isPlaying p = isPlaying q \<Longrightarrow> fps p = fps q \<Longrightarrow> frames p = frames q \<Longrightarrow> columns p = columns q
   \<Longrightarrow> animation_effect p fd n = animation_effect q fd n"
  by (simp add: animation_effect_def)

lemma animation_effect_id: "animation_effect p fd n = Some t \<Longrightarrow> intervalId t = n"
  by (auto simp add: animation_effect_def split: if_splits)

lemma rerender_fields:
  "currentProps (rerender p b st) = p"
  "frameDimensions (rerender p b st) = frameDimensions st"
  "spriteDimensions (rerender p b st) = spriteDimensions st"
  "currentFrame (rerender p b st) = currentFrame st"
  by (simp_all add: rerender_def Let_def split: option.splits)


lemma rerender_ref:
  "playerRef (rerender p b st) =
     (if js_strict_eq (width (frameDimensions st)) (Fin 0) then None
      else case playerRef st of None \<Rightarrow> Some (Fin 0, Fin 0) | Some pos \<Rightarrow> Some pos)"
  by (simp add: rerender_def Let_def split: option.splits)

lemma animation_effect_Some:
  assumes "animation_effect p fd n = Some t"
  shows "cb_frames t = frames p" and "cb_columns t = columns p" and "cb_frameDimensions t = fd"
    and "isPlaying p" and "\<not> js_not (width fd)" and "\<not> js_not (height fd)"
  using assms by (cases t; auto simp add: animation_effect_def split: if_splits)+


lemma consistent_mount: "consistent (mount p)"
  by (simp add: consistent_def mount_def Let_def unloaded_no_timer js_strict_eq_def)

lemma consistent_rerender_restart: "consistent (rerender p True st)"
  by (auto simp add: consistent_def rerender_def Let_def animation_effect_id
      split: option.splits)

lemma consistent_rerender: "consistent st \<Longrightarrow> consistent (rerender p b st)"
proof (cases b)
  case True
  then show ?thesis by (simp add: consistent_rerender_restart)
next
  case False
  assume c: "consistent st"
  show ?thesis
  proof (cases "isPlaying p \<noteq> isPlaying (currentProps st) \<or> fps p \<noteq> fps (currentProps st)
      \<or> frames p \<noteq> frames (currentProps st) \<or> columns p \<noteq> columns (currentProps st)")
    case True
    then show ?thesis
      by (auto simp add: consistent_def rerender_def Let_def animation_effect_id
          split: option.splits)
  next
    case same: False
    then have "animation_effect p (frameDimensions st) n
        = animation_effect (currentProps st) (frameDimensions st) n" for n
      by (intro animation_effect_cong) simp_all
    then show ?thesis using c same False
      by (auto simp add: consistent_def rerender_def Let_def split: option.splits)
  qed
qed

lemma consistent_tick: "consistent st \<Longrightarrow> consistent (tick st)"
  by (auto simp add: consistent_def tick_def Let_def split: option.splits)

lemma consistent_img_onload: "consistent (img_onload img w h st)"
  by (simp add: img_onload_def Let_def consistent_rerender_restart)

lemma consistent_step: "consistent st \<Longrightarrow> consistent (step st e)"
  by (cases e) (simp_all add: set_props_def consistent_rerender consistent_tick consistent_img_onload)

lemma consistent_run: "consistent st \<Longrightarrow> consistent (run st evs)"
  unfolding run_def by (induction evs arbitrary: st) (simp_all add: consistent_step)

lemma reachable_consistent: "consistent (run (mount p) evs)"
  by (simp add: consistent_run consistent_mount)

section \<open>The example states\<close>

lemmas player_eval = run_def mount_def set_props_def rerender_def img_onload_def tick_def
  animation_effect_def load_effect_def resolve_def frame_offset_def Let_def

lemma knight_playing_eq:
  "knight_playing =
     \<lparr>currentProps = knight,
      spriteDimensions = \<lparr>width = Fin 512, height = Fin 512\<rparr>,
      frameDimensions = \<lparr>width = Fin 128, height = Fin 128\<rparr>,
      currentFrame = Fin 5, playerRef = Some (Fin (- 128), Fin (- 128)),
      timer = Some \<lparr>intervalId = 0, delay = js_div (Fin 1000) (Fin 12), cb_frames = Fin 16,
                     cb_columns = Fin 4,
                     cb_frameDimensions = \<lparr>width = Fin 128, height = Fin 128\<rparr>\<rparr>,
      timersCreated = 1, loading = []\<rparr>"
  by (simp add: knight_playing_def knight_def player_eval js_simps fl_eval)


lemma knight_regridded_eq:
  "knight_regridded =
     \<lparr>currentProps = knight\<lparr>columns := Fin 2, frames := Fin 8\<rparr>,
      spriteDimensions = \<lparr>width = Fin 512, height = Fin 512\<rparr>,
      frameDimensions = \<lparr>width = Fin 128, height = Fin 128\<rparr>,
      currentFrame = Fin 5, playerRef = Some (Fin (- 128), Fin (- 128)),
      timer = Some \<lparr>intervalId = 1, delay = js_div (Fin 1000) (Fin 12), cb_frames = Fin 8,
                     cb_columns = Fin 2,
                     cb_frameDimensions = \<lparr>width = Fin 128, height = Fin 128\<rparr>\<rparr>,
      timersCreated = 2,
      loading = [\<lparr>src = ''knight.png'', img_columns = Fin 2, img_frames = Fin 8\<rparr>]\<rparr>"
  by (simp add: knight_regridded_def knight_playing_eq knight_def player_eval js_simps fl_eval)

lemma countdown_loaded_eq:
  "run (mount countdown) [Loaded 0 512 512] =
     \<lparr>currentProps = countdown,
      spriteDimensions = \<lparr>width = Fin 512, height = Fin 512\<rparr>,
      frameDimensions = \<lparr>width = Fin 256, height = Fin (- 256)\<rparr>,
      currentFrame = Fin 0, playerRef = Some (Fin 0, Fin 0),
      timer = Some \<lparr>intervalId = 0, delay = js_div (Fin 1000) (Fin 12), cb_frames = Fin (- 4),
                     cb_columns = Fin 2,
                     cb_frameDimensions = \<lparr>width = Fin 256, height = Fin (- 256)\<rparr>\<rparr>,
      timersCreated = 1, loading = []\<rparr>"
  by (simp add: countdown_def knight_def player_eval js_simps fl_eval)


section \<open>A completed load\<close>







section \<open>The guard of the animation effect\<close>

text \<open>
  Claim C2, as stated, fails.  With a frame count of \<open>-4\<close> (and two columns) the guard
  passes once the 512 by 512 sheet is loaded, and the first firing of the interval
  moves the index from 0 to 1.
\<close>

theorem negative_frame_count_ticks:
  "js_le (frames countdown) (Fin 0)
   \<and> currentFrame (run (mount countdown) [Loaded 0 512 512]) = Fin 0
   \<and> currentFrame (tick (run (mount countdown) [Loaded 0 512 512])) = Fin 1"
  by (simp add: countdown_loaded_eq tick_def Let_def js_simps ceiling_def)
     (simp add: countdown_def knight_def js_simps)

text \<open>
  Claim C2, amended.  In every reachable state, if \<open>isPlaying\<close> is false, or
  \<open>fps \<le> 0\<close>, or the frame width or the frame height is \<open>0\<close> or \<open>NaN\<close> (both are
  \<open>0\<close> until the first load completes), then no interval is registered and a
  tick changes nothing.  The frame count is not part of the guard.
\<close>

theorem no_tick_unless_guard:
  assumes "\<not> isPlaying (currentProps (run (mount p) evs))
           \<or> js_le (fps (currentProps (run (mount p) evs))) (Fin 0)
           \<or> js_not (width (frameDimensions (run (mount p) evs)))
           \<or> js_not (height (frameDimensions (run (mount p) evs)))"
  shows "timer (run (mount p) evs) = None \<and> tick (run (mount p) evs) = run (mount p) evs"
proof -
  have c: "consistent (run (mount p) evs)" by (rule reachable_consistent)
  have "timer (run (mount p) evs) = None"
  proof (cases "timer (run (mount p) evs)")
    case None
    then show ?thesis .
  next
    case (Some t)
    then have "animation_effect (currentProps (run (mount p) evs))
        (frameDimensions (run (mount p) evs)) (intervalId t) = Some t"
      using c by (simp add: consistent_def)
    then show ?thesis using assms by (simp add: animation_effect_def split: if_splits)
  qed
  then show ?thesis by (simp add: tick_def)
qed

theorem no_tick_unless_guard_witness:
  "js_le (fps (currentProps (run (mount knight) [Loaded 0 512 512, Props (knight\<lparr>fps := Fin 0\<rparr>)])))
     (Fin 0)
   \<and> timer (run (mount knight) [Loaded 0 512 512, Props (knight\<lparr>fps := Fin 0\<rparr>)]) = None
   \<and> tick (run (mount knight) [Loaded 0 512 512, Props (knight\<lparr>fps := Fin 0\<rparr>)])
       = run (mount knight) [Loaded 0 512 512, Props (knight\<lparr>fps := Fin 0\<rparr>)]"
proof -
  have h: "js_le (fps (currentProps (run (mount knight)
      [Loaded 0 512 512, Props (knight\<lparr>fps := Fin 0\<rparr>)]))) (Fin 0)"
    by (simp add: run_def set_props_def rerender_fields js_simps)
  show ?thesis
    using h no_tick_unless_guard[of knight "[Loaded 0 512 512, Props (knight\<lparr>fps := Fin 0\<rparr>)]"]
    by blast
qed

section \<open>Changing the speed\<close>

text \<open>
  Claim C9.  In a reachable state with a registered interval, passing a different
  \<open>fps\<close> that is greater than 0 clears the interval and registers a new one, under a
  new id, whose delay is \<open>1000 / fps\<close> and whose callback holds the same frame
  count, column count and geometry; the frame index and the offset are unchanged.
\<close>

theorem fps_change_restarts_timer:
  assumes "st = run (mount p) evs" and "timer st = Some t"
    and "f \<noteq> fps (currentProps st)" and "js_gt f (Fin 0)"
  shows "timer (set_props ((currentProps st)\<lparr>fps := f\<rparr>) st)
           = Some (t\<lparr>intervalId := timersCreated st, delay := js_div (Fin 1000) f\<rparr>)
         \<and> intervalId t < timersCreated st
         \<and> currentFrame (set_props ((currentProps st)\<lparr>fps := f\<rparr>) st) = currentFrame st
         \<and> playerRef (set_props ((currentProps st)\<lparr>fps := f\<rparr>) st) = playerRef st"
proof -
  have c: "consistent st" using assms(1) by (simp add: reachable_consistent)
  have eff: "animation_effect (currentProps st) (frameDimensions st) (intervalId t) = Some t"
    and lt: "intervalId t < timersCreated st"
    and ref: "playerRef st = None \<longleftrightarrow> js_strict_eq (width (frameDimensions st)) (Fin 0)"
    using c assms(2) by (simp_all add: consistent_def)
  have f: "\<not> js_le f (Fin 0)" using assms(4) by (simp add: js_gt_def js_le_def)
  have "timer (set_props ((currentProps st)\<lparr>fps := f\<rparr>) st)
      = animation_effect ((currentProps st)\<lparr>fps := f\<rparr>) (frameDimensions st) (timersCreated st)"
    using assms(3) by (simp add: set_props_def rerender_def Let_def split: option.splits)
  also have "\<dots> = Some (t\<lparr>intervalId := timersCreated st, delay := js_div (Fin 1000) f\<rparr>)"
    using eff f by (cases t) (auto simp add: animation_effect_def split: if_splits)
  finally have t: "timer (set_props ((currentProps st)\<lparr>fps := f\<rparr>) st)
      = Some (t\<lparr>intervalId := timersCreated st, delay := js_div (Fin 1000) f\<rparr>)" .
  have r: "playerRef (set_props ((currentProps st)\<lparr>fps := f\<rparr>) st) = playerRef st"
    using ref by (cases "playerRef st") (simp_all add: set_props_def rerender_ref)
  show ?thesis using t lt r by (simp add: set_props_def rerender_fields)
qed

theorem fps_change_restarts_timer_witness:
  "timer (set_props (knight\<lparr>fps := Fin 24\<rparr>) knight_playing)
     = Some \<lparr>intervalId = 1, delay = js_div (Fin 1000) (Fin 24), cb_frames = Fin 16,
             cb_columns = Fin 4, cb_frameDimensions = \<lparr>width = Fin 128, height = Fin 128\<rparr>\<rparr>
   \<and> currentFrame (set_props (knight\<lparr>fps := Fin 24\<rparr>) knight_playing) = Fin 5"
proof -
  have a: "knight_playing = run (mount knight) [Loaded 0 512 512, Tick, Tick, Tick, Tick, Tick]"
    by (simp add: knight_playing_def)
  have b: "timer knight_playing
      = Some \<lparr>intervalId = 0, delay = js_div (Fin 1000) (Fin 12), cb_frames = Fin 16,
             cb_columns = Fin 4, cb_frameDimensions = \<lparr>width = Fin 128, height = Fin 128\<rparr>\<rparr>"
    by (simp add: knight_playing_eq)
  have c: "Fin 24 \<noteq> fps (currentProps knight_playing)"
    by (simp add: knight_playing_eq knight_def)
  have d: "js_gt (Fin 24) (Fin 0)" by (simp add: js_gt_Fin)
  from fps_change_restarts_timer[OF a b c d] show ?thesis
    by (simp add: knight_playing_eq knight_def)
qed

section \<open>The tick\<close>












section \<open>The offset of the visible frame\<close>

lemma frame_offset_int:
  assumes "0 \<le> j" "j < 2 ^ 53" "1 \<le> c" "c \<le> 2 ^ 53"
  shows "frame_offset (Fin (of_int j)) (Fin (of_int c)) \<lparr>width = Fin fw, height = Fin fh\<rparr>
         = (js_mul (Fin (of_int (- (j mod c)))) (Fin fw), js_mul (Fin (of_int (- (j div c)))) (Fin fh))"
proof -
  have "js_rem (Fin (of_int j)) (Fin (of_int c)) = Fin (of_int (j mod c))"
    using assms by (intro js_rem_int) simp_all
  moreover have "js_div (Fin (of_int j)) (Fin (of_int c)) = Fin (fl (of_int j / of_int c))"
    using assms to_num_quot[of j c] by (simp add: js_div_Fin)
  moreover have "\<lfloor>fl (real_of_int j / real_of_int c)\<rfloor> = j div c"
    using assms by (intro floor_fl_quot) simp_all
  ultimately show ?thesis
    by (simp add: frame_offset_def Let_def Math_floor_Fin js_neg_Fin)
qed

lemma offset_nonpos:
  assumes "0 \<le> k" "0 < d"
  shows "js_le (js_mul (Fin (of_int (- k))) (Fin d)) (Fin 0)"
proof -
  have "real_of_int (- k) * d \<le> 0" using assms by (simp add: mult_nonneg_nonneg)
  then show ?thesis by (simp only: js_mul_Fin to_num_nonpos)
qed

text \<open>
  Claim C7, as stated, fails.  The knight sheet is playing at index 5 with the offset
  \<open>(-128, -128)\<close>; the parent passes a grid of two columns.  After this change of
  state the offset is still \<open>(-128, -128)\<close>, while the derivation for index 5, two
  columns and the frame size 128 gives \<open>(-128, -256)\<close>: nothing derives the offset
  until the next tick or the next completed load.
\<close>

theorem stale_offset_after_regrid:
  "playerRef knight_regridded = Some (Fin (- 128), Fin (- 128))
   \<and> frame_offset (currentFrame knight_regridded) (columns (currentProps knight_regridded))
        (frameDimensions knight_regridded) = (Fin (- 128), Fin (- 256))"
  by (simp add: knight_regridded_eq frame_offset_def Let_def js_simps fl_eval)

text \<open>
  Claim C7, amended.  The offset is derived on every tick: in a reachable state with a
  registered interval, \<open>c\<close> columns and a positive frame size, the tick that leaves
  the index at \<open>j\<close> writes \<open>(-(j mod c) * frameWidth, -(j div c) * frameHeight)\<close>,
  the products being JavaScript products, and both components are at most 0.  A
  change of props does not derive it: it leaves the offset as it was.  (Integers
  up to \<open>2 ^ 53\<close>, which a JavaScript number counts exactly.)
\<close>

theorem tick_derives_offset:
  assumes "st = run (mount p) evs" and "timer st = Some t"
    and "columns (currentProps st) = Fin (of_int c)" and "1 \<le> c" and "c \<le> 2 ^ 53"
    and "currentFrame (tick st) = Fin (of_int j)" and "0 \<le> j" and "j < 2 ^ 53"
    and "frameDimensions st = \<lparr>width = Fin fw, height = Fin fh\<rparr>" and "0 < fw" and "0 < fh"
  shows "playerRef (tick st)
           = Some (js_mul (Fin (of_int (- (j mod c)))) (Fin fw),
                   js_mul (Fin (of_int (- (j div c)))) (Fin fh))
         \<and> js_le (js_mul (Fin (of_int (- (j mod c)))) (Fin fw)) (Fin 0)
         \<and> js_le (js_mul (Fin (of_int (- (j div c)))) (Fin fh)) (Fin 0)
         \<and> (\<forall>q. playerRef (set_props q st) = playerRef st)"
proof -
  have c: "consistent st" using assms(1) by (simp add: reachable_consistent)
  have eff: "animation_effect (currentProps st) (frameDimensions st) (intervalId t) = Some t"
    and ref: "playerRef st = None \<longleftrightarrow> js_strict_eq (width (frameDimensions st)) (Fin 0)"
    using c assms(2) by (simp_all add: consistent_def)
  have cols: "cb_columns t = Fin (of_int c)"
    using animation_effect_Some(2)[OF eff] assms(3) by simp
  have fd: "cb_frameDimensions t = \<lparr>width = Fin fw, height = Fin fh\<rparr>"
    using animation_effect_Some(3)[OF eff] assms(9) by simp
  have "playerRef st \<noteq> None" using ref assms(9,10) by (simp add: js_strict_eq_def)
  then obtain pos where pos: "playerRef st = Some pos" by auto
  have "playerRef (tick st)
      = Some (frame_offset (currentFrame (tick st)) (cb_columns t) (cb_frameDimensions t))"
    using assms(2) pos by (simp add: tick_def Let_def)
  then have off: "playerRef (tick st)
      = Some (js_mul (Fin (of_int (- (j mod c)))) (Fin fw),
              js_mul (Fin (of_int (- (j div c)))) (Fin fh))"
    using frame_offset_int[OF assms(7,8,4,5), of fw fh] by (simp add: assms(6) cols fd)
  have m: "0 \<le> j mod c" using assms(4) by simp
  have d: "0 \<le> j div c" using assms(4,7) by (simp add: pos_imp_zdiv_nonneg_iff)
  have keep: "playerRef (set_props q st) = playerRef st" for q
    using ref pos by (simp add: set_props_def rerender_ref)
  show ?thesis
    using off offset_nonpos[OF m assms(10)] offset_nonpos[OF d assms(11)] keep by simp
qed

theorem tick_derives_offset_witness:
  "playerRef (tick knight_playing) = Some (Fin (- 256), Fin (- 128))
   \<and> playerRef (set_props (knight\<lparr>isPlaying := False\<rparr>) knight_playing) = playerRef knight_playing"
proof -
  have a: "knight_playing = run (mount knight) [Loaded 0 512 512, Tick, Tick, Tick, Tick, Tick]"
    by (simp add: knight_playing_def)
  have b: "timer knight_playing
      = Some \<lparr>intervalId = 0, delay = js_div (Fin 1000) (Fin 12), cb_frames = Fin 16,
             cb_columns = Fin 4, cb_frameDimensions = \<lparr>width = Fin 128, height = Fin 128\<rparr>\<rparr>"
    by (simp add: knight_playing_eq)
  have c: "columns (currentProps knight_playing) = Fin (of_int 4)"
    by (simp add: knight_playing_eq knight_def)
  have d: "currentFrame (tick knight_playing) = Fin (of_int 6)"
    by (simp add: knight_playing_eq tick_def Let_def js_simps)
  have e: "frameDimensions knight_playing = \<lparr>width = Fin 128, height = Fin 128\<rparr>"
    by (simp add: knight_playing_eq)
  from tick_derives_offset[OF a b c _ _ d _ _ e] show ?thesis
    by (simp add: js_simps)
qed

section \<open>The frame geometry\<close>







end
